theory Spec2Isabelle
  imports Main "HOL-Library.Word"
begin

unbundle bit_operations_syntax

section \<open>The memory management unit of the emulator (src/mmu.c)\<close>

subsection \<open>Data model\<close>

type_synonym u8 = "8 word"
type_synonym u16 = "16 word"

text \<open>
  Modelled from the spec: the four size constants of the header mmu.h, which
  is not among the source files.  The specification gives three pageable
  slots, 64 ROM bank references, banks of 16 KiB and 8 KiB of system RAM.
\<close>

definition MMU_NUM_SLOTS :: nat where
  "MMU_NUM_SLOTS = 3"

definition MMU_NUM_ROM_BANKS :: nat where
  "MMU_NUM_ROM_BANKS = 64"

definition MMU_ROM_BANK_SIZE :: nat where
  "MMU_ROM_BANK_SIZE = 16 * 1024"

definition MMU_SYSTEM_RAM_SIZE :: nat where
  "MMU_SYSTEM_RAM_SIZE = 8 * 1024"

text \<open>
  A value of C type \<open>const uint8_t *\<close>: the null pointer, or the address of a
  byte of the read-only memory that holds the borrowed ROM image.  Pointer
  arithmetic \<open>data + k\<close> is addition on the address.
\<close>

datatype ptr = Null | Addr nat

text \<open>
  The read-only memory the bank pointers point into: one byte per address.
  The MMU never writes through a bank pointer, so the memory is an argument of
  the reading functions and of nothing else.  A read past the end of the
  borrowed image, undefined in C, is a read of whatever this memory holds
  there; the loader itself never reads it.
\<close>

type_synonym rom_mem = "nat \<Rightarrow> u8"

text \<open>
  Modelled from the spec: the struct MMU of the header mmu.h (8 KiB system
  RAM, an array of 64 ROM bank references that may be null, a three-entry slot
  table of bank references).  The RAM block is owned by the MMU alone, so it
  is held by value; the two tables are arrays of pointers.
\<close>

record mmu =
  system_ram :: "u8 list"
  map_slots :: "ptr list"
  rom_banks :: "ptr list"

text \<open>The shape every C object of type MMU has once \<open>mmu_init\<close> has run.\<close>

definition mmu_wf :: "mmu \<Rightarrow> bool" where
  "mmu_wf m \<longleftrightarrow>
     length (system_ram m) = MMU_SYSTEM_RAM_SIZE \<and>
     length (map_slots m) = MMU_NUM_SLOTS \<and>
     length (rom_banks m) = MMU_NUM_ROM_BANKS"

subsection \<open>Initialisation, ROM loading, power-on\<close>

text \<open>
  \<open>mmu_init\<close>.  The first argument is the object as the caller hands it over
  (its arrays hold indeterminate pointers), the second the block \<open>cr_malloc\<close>
  returns, whose contents are indeterminate as well.
\<close>

definition mmu_init :: "mmu \<Rightarrow> u8 list \<Rightarrow> mmu" where
  "mmu_init m fresh =
     m\<lparr> system_ram := fresh,
        map_slots := fold (\<lambda>slot ms. ms[slot := Null]) [0..<MMU_NUM_SLOTS] (map_slots m),
        rom_banks := fold (\<lambda>bank bs. bs[bank := Null]) [0..<MMU_NUM_ROM_BANKS] (rom_banks m) \<rparr>"

text \<open>
  The inner loop of \<open>mmu_load_rom\<close>:
  \<^verbatim>\<open>for (mirror = bank; mirror < MMU_NUM_ROM_BANKS; mirror += banks)
      mmu->rom_banks[mirror] = data + (bank * MMU_ROM_BANK_SIZE);\<close>
  With \<open>banks = 0\<close> it would never leave, so not returning is the value \<open>None\<close>.
\<close>

partial_function (option) mirror_loop ::
  "nat \<Rightarrow> nat \<Rightarrow> ptr \<Rightarrow> ptr list \<Rightarrow> ptr list option" where
  "mirror_loop mirror banks p bs =
     (if mirror < MMU_NUM_ROM_BANKS
      then mirror_loop (mirror + banks) banks p (bs[mirror := p])
      else Some bs)"

text \<open>The outer loop: \<^verbatim>\<open>for (bank = 0; bank < banks; bank++)\<close>.\<close>

function bank_loop :: "nat \<Rightarrow> nat \<Rightarrow> nat \<Rightarrow> ptr list \<Rightarrow> ptr list option" where
  "bank_loop bank banks data bs =
     (if bank < banks
      then (case mirror_loop bank banks (Addr (data + bank * MMU_ROM_BANK_SIZE)) bs of
              None \<Rightarrow> None
            | Some bs' \<Rightarrow> bank_loop (bank + 1) banks data bs')
      else Some bs)"
  by pat_completeness auto
termination
  by (relation "measure (\<lambda>(bank, banks, data, bs). banks - bank)") auto

declare bank_loop.simps [simp del]

text \<open>
  \<open>mmu_load_rom\<close>.  The size \<open>sz\<close> is a \<open>size_t\<close>; only its remainder and quotient
  by the bank size are taken, which cannot overflow, so it is a natural
  number.  The debug dump of the bank table changes nothing and is left out.
\<close>

definition mmu_load_rom :: "mmu \<Rightarrow> nat \<Rightarrow> nat \<Rightarrow> mmu option" where
  "mmu_load_rom m data sz =
     (if sz mod MMU_ROM_BANK_SIZE \<noteq> 0 then Some m
      else
        let banks = sz div MMU_ROM_BANK_SIZE;
            banks = (if banks > MMU_NUM_ROM_BANKS then MMU_NUM_ROM_BANKS else banks)
        in map_option (\<lambda>bs. m\<lparr>rom_banks := bs\<rparr>) (bank_loop 0 banks data (rom_banks m)))"

definition map_slot :: "mmu \<Rightarrow> nat \<Rightarrow> nat \<Rightarrow> mmu" where
  "map_slot m slot bank = m\<lparr>map_slots := (map_slots m)[slot := rom_banks m ! bank]\<rparr>"

definition mmu_power :: "mmu \<Rightarrow> mmu" where
  "mmu_power m =
     (fold (\<lambda>slot m'. map_slot m' slot slot) [0..<MMU_NUM_SLOTS] m)
       \<lparr>system_ram := replicate MMU_SYSTEM_RAM_SIZE 0xFF\<rparr>"

subsection \<open>Reading\<close>

definition bank_byte_read :: "rom_mem \<Rightarrow> ptr \<Rightarrow> u16 \<Rightarrow> u8" where
  "bank_byte_read mem bank addr =
     (case bank of Null \<Rightarrow> 0xFF | Addr a \<Rightarrow> mem (a + unat addr))"

definition mmu_read_byte :: "rom_mem \<Rightarrow> mmu \<Rightarrow> u16 \<Rightarrow> u8" where
  "mmu_read_byte mem m addr =
     (if addr < 0x0400 then bank_byte_read mem (rom_banks m ! 0) addr
      else if addr < 0x4000 then bank_byte_read mem (map_slots m ! 0) addr
      else if addr < 0x8000 then bank_byte_read mem (map_slots m ! 1) (addr - 0x4000)
      else if addr < 0xC000 then bank_byte_read mem (map_slots m ! 2) (addr - 0x8000)
      else if addr < 0xE000 then system_ram m ! unat (addr - 0xC000)
      else system_ram m ! unat (addr - 0xE000))"

text \<open>
  \<open>mmu_read_double\<close>.  In C both bytes and \<open>addr + 1\<close> are promoted to \<open>int\<close>;
  the sum \<open>addr + 1\<close> is converted to \<open>uint16_t\<close> at the call and the result
  at the return.
\<close>

definition mmu_read_double :: "rom_mem \<Rightarrow> mmu \<Rightarrow> u16 \<Rightarrow> u16" where
  "mmu_read_double mem m addr =
     word_of_int
       (uint (mmu_read_byte mem m addr) +
        push_bit 8 (uint (mmu_read_byte mem m (word_of_int (uint addr + 1)))))"

subsection \<open>Writing\<close>

definition mmu_write_byte :: "mmu \<Rightarrow> u16 \<Rightarrow> u8 \<Rightarrow> mmu \<times> bool" where
  "mmu_write_byte m addr val =
     (if addr < 0xC000 then (m, False)
      else if addr < 0xE000
      then (m\<lparr>system_ram := (system_ram m)[unat (addr - 0xC000) := val]\<rparr>, True)
      else
        let m' = (if addr = 0xFFFC then m
                  else if addr = 0xFFFD then map_slot m 0 (unat (val AND 0x3F))
                  else if addr = 0xFFFE then map_slot m 1 (unat (val AND 0x3F))
                  else if addr = 0xFFFF then map_slot m 2 (unat (val AND 0x3F))
                  else m)
        in (m'\<lparr>system_ram := (system_ram m')[unat (addr - 0xE000) := val]\<rparr>, True))"

text \<open>
  \<open>mmu_write_double\<close>: the low byte \<open>value & 0xFF\<close> first, then \<open>value >> 8\<close> at
  \<open>addr + 1\<close> (an \<open>int\<close>, converted to \<open>uint16_t\<close> at the call).
\<close>

definition mmu_write_double :: "mmu \<Rightarrow> u16 \<Rightarrow> u16 \<Rightarrow> mmu \<times> bool" where
  "mmu_write_double m addr val =
     (let (m1, b1) = mmu_write_byte m addr (ucast (val AND 0xFF));
          (m2, b2) = mmu_write_byte m1 (word_of_int (uint addr + 1)) (ucast (drop_bit 8 val))
      in (m2, b1 \<and> b2))"

subsection \<open>Sequences of calls on one MMU\<close>

text \<open>
  The calls that change an MMU, as a caller issues them one after another.
  The success flag of a write is not kept: only the MMU after the call is.
\<close>

datatype mmu_op =
    LoadRom nat nat
  | Power
  | WriteByte u16 u8
  | WriteDouble u16 u16

fun mmu_step :: "mmu_op \<Rightarrow> mmu \<Rightarrow> mmu option" where
  "mmu_step (LoadRom data sz) m = mmu_load_rom m data sz"
| "mmu_step Power m = Some (mmu_power m)"
| "mmu_step (WriteByte addr val) m = Some (fst (mmu_write_byte m addr val))"
| "mmu_step (WriteDouble addr val) m = Some (fst (mmu_write_double m addr val))"

fun mmu_run :: "mmu_op list \<Rightarrow> mmu \<Rightarrow> mmu option" where
  "mmu_run [] m = Some m"
| "mmu_run (c # cs) m = (case mmu_step c m of None \<Rightarrow> None | Some m' \<Rightarrow> mmu_run cs m')"

fun is_load :: "mmu_op \<Rightarrow> bool" where
  "is_load (LoadRom data sz) = True"
| "is_load c = False"

text \<open>Every bank reference is set: what a load of a non-empty image leaves.\<close>

definition banks_set :: "mmu \<Rightarrow> bool" where
  "banks_set m \<longleftrightarrow> list_all (\<lambda>p. p \<noteq> Null) (rom_banks m)"

section \<open>The host's display set-up (src/gamegear.h, src/emulator.c)\<close>

definition GG_SCREEN_WIDTH :: nat where
  "GG_SCREEN_WIDTH = 160 + 96"

definition GG_SCREEN_HEIGHT :: nat where
  "GG_SCREEN_HEIGHT = 144 + 48"

text \<open>\<open>sizeof(uint32_t)\<close>, in bytes of eight bits.\<close>

definition sizeof_uint32 :: nat where
  "sizeof_uint32 = 4"

datatype pixel_format = SDL_PIXELFORMAT_ARGB8888

datatype texture_access = SDL_TEXTUREACCESS_STREAMING

record texture =
  tex_format :: pixel_format
  tex_access :: texture_access
  tex_w :: nat
  tex_h :: nat

text \<open>
  What \<open>setup_graphics\<close> leaves in the file-scope \<open>Emulator\<close> object: the size of
  the window it asks for, the texture, the number of bytes of the pixel buffer
  it allocates, and the logical size it gives the renderer.
\<close>

record emulator =
  window_w :: "32 word"
  window_h :: "32 word"
  emu_texture :: texture
  pixels_bytes :: nat
  logical_w :: nat
  logical_h :: nat

text \<open>
  What the library reports back to \<open>setup_graphics\<close>, call by call, and the
  four places where the function gives up through \<open>FATAL\<close>, which ends the
  process.
\<close>

record sdl_outcome =
  init_ok :: bool
  window_ok :: bool
  renderer_ok :: bool
  texture_ok :: bool

datatype fatal =
    InitFailed
  | NoWindow
  | NoRenderer
  | NoTexture

definition setup_graphics :: "sdl_outcome \<Rightarrow> bool \<Rightarrow> 32 word \<Rightarrow> fatal + emulator" where
  "setup_graphics sdl fullscreen scale =
     (if \<not> init_ok sdl then Inl InitFailed
      else if \<not> window_ok sdl then Inl NoWindow
      else if \<not> renderer_ok sdl then Inl NoRenderer
      else if \<not> texture_ok sdl then Inl NoTexture
      else Inr \<lparr> window_w = scale * word_of_nat GG_SCREEN_WIDTH,
                 window_h = scale * word_of_nat GG_SCREEN_HEIGHT,
                 emu_texture = \<lparr> tex_format = SDL_PIXELFORMAT_ARGB8888,
                                 tex_access = SDL_TEXTUREACCESS_STREAMING,
                                 tex_w = GG_SCREEN_WIDTH, tex_h = GG_SCREEN_HEIGHT \<rparr>,
                 pixels_bytes = sizeof_uint32 * GG_SCREEN_WIDTH * GG_SCREEN_HEIGHT,
                 logical_w = GG_SCREEN_WIDTH, logical_h = GG_SCREEN_HEIGHT \<rparr>)"

text \<open>
  \<open>draw_frame\<close>, as the calls it makes on the library, in order.  A rectangle
  argument is \<open>None\<close> where the code passes \<open>NULL\<close> (the whole texture, the
  whole target); the second argument of the texture update is the pitch, the
  number of bytes of one row of the pixel buffer.
\<close>

datatype rect = Rect int int int int

datatype sdl_call =
    SDL_UpdateTexture "rect option" nat
  | SDL_SetRenderDrawColor u8 u8 u8 u8
  | SDL_RenderClear
  | SDL_RenderCopy "rect option" "rect option"
  | SDL_RenderPresent

definition draw_frame :: "sdl_call list" where
  "draw_frame =
     [ SDL_UpdateTexture None (GG_SCREEN_WIDTH * sizeof_uint32),
       SDL_SetRenderDrawColor 0x00 0x00 0x00 0xFF,
       SDL_RenderClear,
       SDL_RenderCopy None None,
       SDL_RenderPresent ]"

section \<open>Auxiliary facts\<close>

lemmas mmu_consts = MMU_NUM_SLOTS_def MMU_NUM_ROM_BANKS_def MMU_ROM_BANK_SIZE_def
  MMU_SYSTEM_RAM_SIZE_def

subsection \<open>The nested iteration of the ROM loader\<close>

lemma mirror_loop_spec:
  assumes "0 < banks"
  shows "\<exists>bs'. mirror_loop mirror banks p bs = Some bs' \<and> length bs' = length bs \<and>
           (\<forall>i < length bs. bs' ! i =
              (if mirror \<le> i \<and> i < MMU_NUM_ROM_BANKS \<and> (i - mirror) mod banks = 0 then p else bs ! i))"
proof (induction "MMU_NUM_ROM_BANKS - mirror" arbitrary: mirror bs rule: less_induct)
  case less
  show ?case
  proof (cases "mirror < MMU_NUM_ROM_BANKS")
    case False
    then show ?thesis by (subst mirror_loop.simps) auto
  next
    case True
    with assms have "MMU_NUM_ROM_BANKS - (mirror + banks) < MMU_NUM_ROM_BANKS - mirror" by arith
    from less[OF this, of "bs[mirror := p]"]
    obtain bs' where s: "mirror_loop (mirror + banks) banks p (bs[mirror := p]) = Some bs'"
      and l: "length bs' = length bs"
      and v: "\<forall>i < length bs. bs' ! i =
              (if mirror + banks \<le> i \<and> i < MMU_NUM_ROM_BANKS \<and> (i - (mirror + banks)) mod banks = 0 then p else bs[mirror := p] ! i)"
      by auto
    have "mirror_loop mirror banks p bs = Some bs'"
      using True s by (subst mirror_loop.simps) simp
    moreover have "bs' ! i = (if mirror \<le> i \<and> i < MMU_NUM_ROM_BANKS \<and> (i - mirror) mod banks = 0 then p else bs ! i)"
      if "i < length bs" for i
    proof -
      consider "i < mirror" | "i = mirror" | "mirror < i" "i < mirror + banks" | "mirror + banks \<le> i" by arith
      then show ?thesis
      proof cases
        case 1 then show ?thesis using v that by simp
      next
        case 2 then show ?thesis using v that True assms by simp
      next
        case 3
        then have "(i - mirror) mod banks \<noteq> 0" by simp
        then show ?thesis using v that 3 by simp
      next
        case 4
        then have "i - mirror = (i - (mirror + banks)) + banks" by arith
        then have "(i - mirror) mod banks = (i - (mirror + banks)) mod banks"
          by (simp only: mod_add_self2)
        moreover have "i \<noteq> mirror" using 4 assms by arith
        ultimately show ?thesis using v that 4 by simp
      qed
    qed
    ultimately show ?thesis using l by blast
  qed
qed

lemma mirror_index_iff:
  assumes "bank < (banks::nat)"
  shows "(bank \<le> i \<and> (i - bank) mod banks = 0) \<longleftrightarrow> i mod banks = bank"
proof
  assume a: "bank \<le> i \<and> (i - bank) mod banks = 0"
  then have "i = (i - bank) + bank" by simp
  then have "i mod banks = ((i - bank) mod banks + bank) mod banks"
    by (metis mod_add_left_eq)
  with a assms show "i mod banks = bank" by simp
next
  assume b: "i mod banks = bank"
  then have le: "bank \<le> i" by (metis mod_less_eq_dividend)
  have "i - bank = i div banks * banks" using b by (metis minus_mod_eq_div_mult)
  then show "bank \<le> i \<and> (i - bank) mod banks = 0" using le by simp
qed

lemma bank_loop_spec:
  assumes "0 < banks"
  shows "\<exists>bs'. bank_loop bank banks data bs = Some bs' \<and> length bs' = length bs \<and>
           (\<forall>i < length bs. bs' ! i =
              (if i < MMU_NUM_ROM_BANKS \<and> bank \<le> i mod banks
               then Addr (data + (i mod banks) * MMU_ROM_BANK_SIZE) else bs ! i))"
proof (induction "banks - bank" arbitrary: bank bs rule: less_induct)
  case less
  show ?case
  proof (cases "bank < banks")
    case False
    have "\<not> bank \<le> i mod banks" for i
      using False assms by (metis mod_less_divisor not_less le_trans)
    then show ?thesis using False by (subst bank_loop.simps) simp
  next
    case True
    obtain bs1 where s1: "mirror_loop bank banks (Addr (data + bank * MMU_ROM_BANK_SIZE)) bs = Some bs1"
      and l1: "length bs1 = length bs"
      and v1: "\<forall>i < length bs. bs1 ! i =
              (if bank \<le> i \<and> i < MMU_NUM_ROM_BANKS \<and> (i - bank) mod banks = 0
               then Addr (data + bank * MMU_ROM_BANK_SIZE) else bs ! i)"
      using mirror_loop_spec[OF assms, of bank "Addr (data + bank * MMU_ROM_BANK_SIZE)" bs] by blast
    from True have "banks - (bank + 1) < banks - bank" by arith
    from less[OF this, of bs1]
    obtain bs' where s2: "bank_loop (bank + 1) banks data bs1 = Some bs'"
      and l2: "length bs' = length bs1"
      and v2: "\<forall>i < length bs1. bs' ! i =
              (if i < MMU_NUM_ROM_BANKS \<and> bank + 1 \<le> i mod banks
               then Addr (data + (i mod banks) * MMU_ROM_BANK_SIZE) else bs1 ! i)"
      by blast
    have "bank_loop bank banks data bs = Some bs'"
      using True s1 s2 by (subst bank_loop.simps) simp
    moreover have "bs' ! i = (if i < MMU_NUM_ROM_BANKS \<and> bank \<le> i mod banks
               then Addr (data + (i mod banks) * MMU_ROM_BANK_SIZE) else bs ! i)"
      if "i < length bs" for i
    proof -
      have a: "bs' ! i = (if i < MMU_NUM_ROM_BANKS \<and> bank + 1 \<le> i mod banks
               then Addr (data + (i mod banks) * MMU_ROM_BANK_SIZE) else bs1 ! i)"
        using v2 that l1 by simp
      have b: "bs1 ! i = (if i < MMU_NUM_ROM_BANKS \<and> i mod banks = bank
               then Addr (data + bank * MMU_ROM_BANK_SIZE) else bs ! i)"
        using v1 that mirror_index_iff[OF True, of i] by auto
      consider "i mod banks < bank" | "i mod banks = bank" | "bank < i mod banks" by arith
      then show ?thesis
        by cases (simp_all add: a b)
    qed
    ultimately show ?thesis using l1 l2 by simp
  qed
qed

lemma bank_loop_none: "bank_loop 0 0 data bs = Some bs"
  by (subst bank_loop.simps) simp

lemma mmu_load_rom_spec:
  assumes "sz mod MMU_ROM_BANK_SIZE = 0" "MMU_ROM_BANK_SIZE \<le> sz"
  shows "\<exists>bs'. mmu_load_rom m data sz = Some (m\<lparr>rom_banks := bs'\<rparr>) \<and>
           length bs' = length (rom_banks m) \<and>
           (\<forall>i < length (rom_banks m). bs' ! i =
              (if i < MMU_NUM_ROM_BANKS
               then Addr (data + (i mod min (sz div MMU_ROM_BANK_SIZE) MMU_NUM_ROM_BANKS)
                                   * MMU_ROM_BANK_SIZE)
               else rom_banks m ! i))"
proof -
  define banks where "banks = min (sz div MMU_ROM_BANK_SIZE) MMU_NUM_ROM_BANKS"
  have "0 < sz div MMU_ROM_BANK_SIZE"
    using assms by (simp add: MMU_ROM_BANK_SIZE_def div_greater_zero_iff)
  then have pos: "0 < banks"
    by (simp add: banks_def MMU_NUM_ROM_BANKS_def)
  have eq: "mmu_load_rom m data sz =
      map_option (\<lambda>bs. m\<lparr>rom_banks := bs\<rparr>) (bank_loop 0 banks data (rom_banks m))"
    using assms(1) by (simp add: mmu_load_rom_def banks_def min_def Let_def)
  from bank_loop_spec[OF pos, of 0 data "rom_banks m"]
  show ?thesis unfolding eq banks_def[symmetric] by auto
qed

lemma mmu_load_rom_empty: "mmu_load_rom m data 0 = Some m"
  by (simp add: mmu_load_rom_def bank_loop_none)

lemma mmu_load_rom_cases:
  "mmu_load_rom m data sz = Some m \<or>
   (sz mod MMU_ROM_BANK_SIZE = 0 \<and> MMU_ROM_BANK_SIZE \<le> sz \<and>
    (\<exists>bs'. mmu_load_rom m data sz = Some (m\<lparr>rom_banks := bs'\<rparr>) \<and>
           length bs' = length (rom_banks m) \<and>
           (\<forall>i < length (rom_banks m). bs' ! i =
              (if i < MMU_NUM_ROM_BANKS
               then Addr (data + (i mod min (sz div MMU_ROM_BANK_SIZE) MMU_NUM_ROM_BANKS)
                                   * MMU_ROM_BANK_SIZE)
               else rom_banks m ! i))))"
proof (cases "sz mod MMU_ROM_BANK_SIZE = 0")
  case False
  then show ?thesis by (simp add: mmu_load_rom_def)
next
  case True
  show ?thesis
  proof (cases "sz = 0")
    case True
    then show ?thesis by (simp add: mmu_load_rom_empty)
  next
    case False
    with True have "MMU_ROM_BANK_SIZE \<le> sz"
      by (metis mod_less neq0_conv not_le)
    from mmu_load_rom_spec[OF True this, of m data] True this show ?thesis
      by (intro disjI2 conjI)
  qed
qed

subsection \<open>Shape and frame lemmas\<close>

lemma fold_null_length: "length (fold (\<lambda>i xs. xs[i := Null]) is xs) = length xs"
  by (induction "is" arbitrary: xs) simp_all

lemma fold_null_nth:
  "i < length xs \<Longrightarrow>
   fold (\<lambda>i xs. xs[i := Null]) is xs ! i = (if i \<in> set is then Null else xs ! i)"
proof (induction "is" arbitrary: xs)
  case Nil
  then show ?case by simp
next
  case (Cons j js)
  then show ?case by (cases "i = j") simp_all
qed

lemma mmu_init_wf:
  assumes "mmu_wf m0" "length fresh = MMU_SYSTEM_RAM_SIZE"
  shows "mmu_wf (mmu_init m0 fresh)"
  using assms by (simp add: mmu_wf_def mmu_init_def fold_null_length)

lemma mmu_init_banks:
  assumes "mmu_wf m0" "i < MMU_NUM_ROM_BANKS"
  shows "rom_banks (mmu_init m0 fresh) ! i = Null"
  using assms by (simp add: mmu_wf_def mmu_init_def fold_null_nth)

lemma map_slot_fields [simp]:
  "rom_banks (map_slot m slot bank) = rom_banks m"
  "system_ram (map_slot m slot bank) = system_ram m"
  "length (map_slots (map_slot m slot bank)) = length (map_slots m)"
  by (simp_all add: map_slot_def)

lemma fold_map_slot_fields:
  "rom_banks (fold (\<lambda>slot m'. map_slot m' slot slot) ss m) = rom_banks m"
  "length (map_slots (fold (\<lambda>slot m'. map_slot m' slot slot) ss m)) = length (map_slots m)"
  by (induction ss arbitrary: m) simp_all

lemma mmu_power_banks [simp]: "rom_banks (mmu_power m) = rom_banks m"
  by (simp add: mmu_power_def fold_map_slot_fields)

lemma mmu_power_wf: "mmu_wf m \<Longrightarrow> mmu_wf (mmu_power m)"
  by (simp add: mmu_wf_def mmu_power_def fold_map_slot_fields)

lemma mmu_write_byte_banks [simp]: "rom_banks (fst (mmu_write_byte m addr v)) = rom_banks m"
  by (simp add: mmu_write_byte_def Let_def)

lemma mmu_write_byte_wf: "mmu_wf m \<Longrightarrow> mmu_wf (fst (mmu_write_byte m addr v))"
  by (simp add: mmu_wf_def mmu_write_byte_def Let_def)

lemma mmu_write_double_fst:
  "fst (mmu_write_double m addr v) =
     fst (mmu_write_byte (fst (mmu_write_byte m addr (ucast (v AND 0xFF))))
            (word_of_int (uint addr + 1)) (ucast (drop_bit 8 v)))"
  by (simp add: mmu_write_double_def Let_def split: prod.splits)

lemma mmu_write_double_banks [simp]: "rom_banks (fst (mmu_write_double m addr v)) = rom_banks m"
  by (simp only: mmu_write_double_fst mmu_write_byte_banks)

lemma mmu_write_double_wf: "mmu_wf m \<Longrightarrow> mmu_wf (fst (mmu_write_double m addr v))"
  by (simp only: mmu_write_double_fst mmu_write_byte_wf)

lemma mmu_load_rom_total: "\<exists>m'. mmu_load_rom m data sz = Some m'"
  using mmu_load_rom_cases[of m data sz] by blast

lemma mmu_load_rom_wf:
  assumes "mmu_wf m" "mmu_load_rom m data sz = Some m'"
  shows "mmu_wf m'"
  using mmu_load_rom_cases[of m data sz] assms by (auto simp: mmu_wf_def)

lemma mmu_load_rom_banks_set:
  assumes "mmu_wf m" "banks_set m" "mmu_load_rom m data sz = Some m'"
  shows "banks_set m'"
proof -
  from mmu_load_rom_cases[of m data sz] assms(3)
  consider "m' = m"
    | bs' where "m' = m\<lparr>rom_banks := bs'\<rparr>" "length bs' = length (rom_banks m)"
        "\<forall>i < length (rom_banks m). bs' ! i =
              (if i < MMU_NUM_ROM_BANKS
               then Addr (data + (i mod min (sz div MMU_ROM_BANK_SIZE) MMU_NUM_ROM_BANKS)
                                   * MMU_ROM_BANK_SIZE)
               else rom_banks m ! i)"
    by auto
  then show ?thesis
  proof cases
    case 1
    with assms(2) show ?thesis by simp
  next
    case 2
    with assms(1) show ?thesis
      by (simp add: banks_set_def mmu_wf_def list_all_length)
  qed
qed

lemma mmu_step_ok:
  assumes "mmu_wf m"
  shows "\<exists>m'. mmu_step c m = Some m' \<and> mmu_wf m' \<and> (banks_set m \<longrightarrow> banks_set m') \<and>
           (\<not> is_load c \<longrightarrow> rom_banks m' = rom_banks m)"
proof (cases c)
  case (LoadRom data sz)
  obtain m' where "mmu_load_rom m data sz = Some m'"
    using mmu_load_rom_total by blast
  with assms LoadRom show ?thesis
    by (auto intro: mmu_load_rom_wf mmu_load_rom_banks_set)
next
  case Power
  with assms show ?thesis by (simp add: mmu_power_wf banks_set_def)
next
  case (WriteByte addr v)
  with assms show ?thesis by (simp add: mmu_write_byte_wf banks_set_def)
next
  case (WriteDouble addr v)
  with assms show ?thesis by (simp add: mmu_write_double_wf banks_set_def)
qed

lemma mmu_run_ok:
  assumes "mmu_wf m"
  shows "\<exists>m'. mmu_run cs m = Some m' \<and> mmu_wf m' \<and> (banks_set m \<longrightarrow> banks_set m') \<and>
           (list_all (\<lambda>c. \<not> is_load c) cs \<longrightarrow> rom_banks m' = rom_banks m)"
  using assms
proof (induction cs arbitrary: m)
  case Nil
  then show ?case by simp
next
  case (Cons c cs)
  from mmu_step_ok[OF Cons.prems, of c]
  obtain m1 where s: "mmu_step c m = Some m1" and w: "mmu_wf m1"
    and b: "banks_set m \<longrightarrow> banks_set m1"
    and r: "\<not> is_load c \<longrightarrow> rom_banks m1 = rom_banks m"
    by blast
  from Cons.IH[OF w]
  obtain m' where s': "mmu_run cs m1 = Some m'" and w': "mmu_wf m'"
    and b': "banks_set m1 \<longrightarrow> banks_set m'"
    and r': "list_all (\<lambda>c. \<not> is_load c) cs \<longrightarrow> rom_banks m' = rom_banks m1"
    by blast
  from s s' have "mmu_run (c # cs) m = Some m'" by simp
  with w' b b' r r' show ?case by simp
qed

subsection \<open>Addresses and bytes\<close>

lemma mirror_addr:
  fixes addr :: u16
  assumes "0xC000 \<le> addr" "addr \<le> 0xDFFF"
  shows "\<not> addr < 0xC000" "addr < 0xE000" "\<not> addr + 0x2000 < 0xE000"
    "addr + 0x2000 - 0xE000 = addr - 0xC000"
proof -
  have a: "49152 \<le> unat addr" "unat addr \<le> 57343"
    using assms by (simp_all add: word_le_nat_alt)
  show "\<not> addr < 0xC000" using a by (simp add: word_less_nat_alt)
  show "addr < 0xE000" using a by (simp add: word_less_nat_alt)
  have "unat (addr + 0x2000) = unat addr + 8192"
    using a by (simp add: unat_word_ariths)
  then show "\<not> addr + 0x2000 < 0xE000" using a by (simp add: word_less_nat_alt)
  show "addr + 0x2000 - 0xE000 = addr - 0xC000" by simp
qed

lemma promote_succ: "(word_of_int (uint (addr :: u16) + 1) :: u16) = addr + 1"
  by simp

lemma word_of_nat_mod16: "(word_of_nat (n mod 2 ^ 16) :: u16) = word_of_nat n"
  by (simp add: word_of_nat_eq_iff take_bit_eq_mod)

lemma succ_mod: "(addr :: u16) + 1 = word_of_nat ((unat addr + 1) mod 2 ^ 16)"
  by (simp only: word_of_nat_mod16) simp

lemma le_word_join:
  fixes lo hi :: u8
  shows "(word_of_int (uint lo + push_bit 8 (uint hi)) :: u16) = ucast lo OR push_bit 8 (ucast hi)"
proof -
  have "(ucast lo :: u16) AND push_bit 8 (ucast hi) = 0"
    by (rule bit_eqI) (auto simp add: bit_simps dest: bit_imp_le_length)
  then have "(ucast lo :: u16) + push_bit 8 (ucast hi) = ucast lo OR push_bit 8 (ucast hi)"
    by (rule disjunctive_add_eq_or)
  moreover have "(word_of_int (uint lo + push_bit 8 (uint hi)) :: u16) = ucast lo + push_bit 8 (ucast hi)"
    by (simp add: push_bit_eq_mult)
  ultimately show ?thesis by simp
qed

lemma low_byte_bank:
  fixes v :: u16
  shows "unat ((ucast (v AND 0xFF) :: u8) AND 0x3F) = unat (v AND 0x3F)"
proof -
  have m: "(0x3F :: u8) = mask 6" "(0x3F :: u16) = mask 6" "(0xFF :: u16) = mask 8"
    by (simp_all add: mask_eq_exp_minus_1)
  have "(ucast ((ucast (v AND 0xFF) :: u8) AND 0x3F) :: u16) = v AND 0x3F"
    unfolding m by (rule bit_eqI) (auto simp add: bit_simps)
  then have "unat (ucast ((ucast (v AND 0xFF) :: u8) AND 0x3F) :: u16) = unat (v AND 0x3F)"
    by simp
  moreover have "unat (ucast w :: u16) = unat w" for w :: u8
  proof -
    have "unat w < 2 ^ 8" using unsigned_less[of w] by simp
    then have "unat w < 2 ^ 16" by simp
    then show ?thesis by (simp add: unsigned_ucast_eq take_bit_nat_eq_self)
  qed
  ultimately show ?thesis by simp
qed

lemma bank_index_less: "unat ((v :: u8) AND 0x3F) < MMU_NUM_ROM_BANKS"
proof -
  have "v AND 0x3F \<le> 0x3F" by (rule word_and_le1)
  then have "unat (v AND 0x3F) \<le> 63" by (simp add: word_le_nat_alt)
  then show ?thesis by (simp add: MMU_NUM_ROM_BANKS_def)
qed

lemma write_FFFE_read_4000:
  assumes "mmu_wf m"
  shows "mmu_read_byte mem (fst (mmu_write_byte m 0xFFFE v)) 0x4000 =
           bank_byte_read mem (rom_banks m ! unat (v AND 0x3F)) 0"
  using assms
  by (simp add: mmu_write_byte_def mmu_read_byte_def map_slot_def mmu_wf_def MMU_NUM_SLOTS_def)

lemma load_rom_sets_banks:
  assumes "mmu_wf m" "sz mod MMU_ROM_BANK_SIZE = 0" "0 < sz"
  shows "\<exists>m'. mmu_load_rom m data sz = Some m' \<and> mmu_wf m' \<and> banks_set m' \<and>
           (\<forall>i < MMU_NUM_ROM_BANKS. rom_banks m' ! i =
               Addr (data + (i mod min (sz div MMU_ROM_BANK_SIZE) MMU_NUM_ROM_BANKS)
                              * MMU_ROM_BANK_SIZE))"
proof -
  from assms(2,3) have "MMU_ROM_BANK_SIZE \<le> sz"
    by (metis mod_less neq0_conv not_le)
  from mmu_load_rom_spec[OF assms(2) this, of m data]
  obtain bs' where l: "mmu_load_rom m data sz = Some (m\<lparr>rom_banks := bs'\<rparr>)"
    and n: "length bs' = length (rom_banks m)"
    and v: "\<forall>i < length (rom_banks m). bs' ! i =
              (if i < MMU_NUM_ROM_BANKS
               then Addr (data + (i mod min (sz div MMU_ROM_BANK_SIZE) MMU_NUM_ROM_BANKS)
                                   * MMU_ROM_BANK_SIZE)
               else rom_banks m ! i)"
    by blast
  from assms(1) have len: "length (rom_banks m) = MMU_NUM_ROM_BANKS"
    by (simp add: mmu_wf_def)
  have "mmu_wf (m\<lparr>rom_banks := bs'\<rparr>)"
    using assms(1) n by (simp add: mmu_wf_def)
  moreover have "banks_set (m\<lparr>rom_banks := bs'\<rparr>)"
    using n v len by (simp add: banks_set_def list_all_length)
  moreover have "\<forall>i < MMU_NUM_ROM_BANKS. rom_banks (m\<lparr>rom_banks := bs'\<rparr>) ! i =
               Addr (data + (i mod min (sz div MMU_ROM_BANK_SIZE) MMU_NUM_ROM_BANKS)
                              * MMU_ROM_BANK_SIZE)"
    using v len by simp
  ultimately show ?thesis using l by blast
qed

lemma read_ram:
  assumes "0xC000 \<le> addr" "addr < 0xE000"
  shows "mmu_read_byte mem m addr = system_ram m ! unat (addr - 0xC000)"
  using assms by (simp add: mmu_read_byte_def word_less_nat_alt word_le_nat_alt)

lemma read_mirror:
  assumes "0xE000 \<le> addr"
  shows "mmu_read_byte mem m addr = system_ram m ! unat (addr - 0xE000)"
  using assms by (simp add: mmu_read_byte_def word_less_nat_alt word_le_nat_alt)

lemma write_ram:
  assumes "0xC000 \<le> addr" "addr < 0xE000"
  shows "mmu_write_byte m addr v =
           (m\<lparr>system_ram := (system_ram m)[unat (addr - 0xC000) := v]\<rparr>, True)"
  using assms by (simp add: mmu_write_byte_def word_less_nat_alt word_le_nat_alt)

lemma write_mirror:
  assumes "0xE000 \<le> addr"
  shows "system_ram (fst (mmu_write_byte m addr v)) = (system_ram m)[unat (addr - 0xE000) := v]"
  using assms by (simp add: mmu_write_byte_def Let_def word_less_nat_alt word_le_nat_alt)

section \<open>The properties\<close>

subsection \<open>C1\<close>

text \<open>
  Claim C1.  After a load of a non-empty image whose size is a multiple of the
  bank size, and after any further calls, every bank reference is set; a write
  of any byte \<open>v\<close> to \<open>0xFFFE\<close> then makes the next
  read of \<open>0x4000\<close> return the byte at offset 0 of bank
  \<open>v AND 0x3F\<close>.  While no other image is loaded, that is the byte of
  the image at offset \<open>((v AND 0x3F) mod banks) * 16 KiB\<close>.
\<close>

theorem write_FFFE_maps_slot1:
  assumes "mmu_wf m0" "sz mod MMU_ROM_BANK_SIZE = 0" "0 < sz"
  shows "\<exists>m a. mmu_run (LoadRom data sz # cs) m0 = Some m \<and>
           rom_banks m ! unat (v AND 0x3F) = Addr a \<and>
           mmu_read_byte mem (fst (mmu_write_byte m 0xFFFE v)) 0x4000 = mem a \<and>
           (list_all (\<lambda>c. \<not> is_load c) cs \<longrightarrow>
              a = data + (unat (v AND 0x3F) mod min (sz div MMU_ROM_BANK_SIZE) MMU_NUM_ROM_BANKS)
                           * MMU_ROM_BANK_SIZE)"
proof -
  let ?k = "unat (v AND 0x3F)"
  from load_rom_sets_banks[OF assms, of data]
  obtain m1 where l: "mmu_load_rom m0 data sz = Some m1" and w1: "mmu_wf m1"
    and b1: "banks_set m1"
    and t1: "\<forall>i < MMU_NUM_ROM_BANKS. rom_banks m1 ! i =
               Addr (data + (i mod min (sz div MMU_ROM_BANK_SIZE) MMU_NUM_ROM_BANKS)
                              * MMU_ROM_BANK_SIZE)"
    by blast
  from mmu_run_ok[OF w1, of cs]
  obtain m where r: "mmu_run cs m1 = Some m" and w: "mmu_wf m"
    and b: "banks_set m"
    and same: "list_all (\<lambda>c. \<not> is_load c) cs \<longrightarrow> rom_banks m = rom_banks m1"
    using b1 by blast
  have run: "mmu_run (LoadRom data sz # cs) m0 = Some m"
    using l r by simp
  have k: "?k < MMU_NUM_ROM_BANKS" by (rule bank_index_less)
  with w b have "rom_banks m ! ?k \<noteq> Null"
    by (simp add: banks_set_def list_all_length mmu_wf_def)
  then obtain a where a: "rom_banks m ! ?k = Addr a"
    by (cases "rom_banks m ! ?k") simp_all
  have rd: "mmu_read_byte mem (fst (mmu_write_byte m 0xFFFE v)) 0x4000 = mem a"
    using write_FFFE_read_4000[OF w, of mem v] a by (simp add: bank_byte_read_def)
  have "a = data + (?k mod min (sz div MMU_ROM_BANK_SIZE) MMU_NUM_ROM_BANKS) * MMU_ROM_BANK_SIZE"
    if "list_all (\<lambda>c. \<not> is_load c) cs"
    using that same t1 k a by simp
  with run a rd show ?thesis by blast
qed

theorem write_FFFE_maps_slot1_witness:
  "\<exists>m a. mmu_run (LoadRom 4096 32768 # [Power, WriteByte 0xFFFF 5])
            \<lparr>system_ram = replicate 8192 0xFF, map_slots = replicate 3 Null,
             rom_banks = replicate 64 Null\<rparr> = Some m \<and>
         rom_banks m ! unat ((0x43 :: u8) AND 0x3F) = Addr a \<and>
         mmu_read_byte (\<lambda>a. word_of_nat (a div 4096))
           (fst (mmu_write_byte m 0xFFFE 0x43)) 0x4000 = 5 \<and>
         a = 20480"
proof -
  let ?m0 = "\<lparr>system_ram = replicate 8192 0xFF, map_slots = replicate 3 Null,
             rom_banks = replicate 64 Null\<rparr>"
  let ?mem = "\<lambda>a. word_of_nat (a div 4096) :: u8"
  have w: "mmu_wf ?m0" by (simp add: mmu_wf_def mmu_consts)
  have s: "32768 mod MMU_ROM_BANK_SIZE = 0" "0 < (32768 :: nat)"
    by (simp_all add: mmu_consts)
  have k: "unat ((0x43 :: u8) AND 0x3F) = 3" by simp
  from write_FFFE_maps_slot1[OF w s, of 4096 "[Power, WriteByte 0xFFFF 5]" "0x43" ?mem]
  obtain m a where r: "mmu_run (LoadRom 4096 32768 # [Power, WriteByte 0xFFFF 5]) ?m0 = Some m"
    and p: "rom_banks m ! unat ((0x43 :: u8) AND 0x3F) = Addr a"
    and rd: "mmu_read_byte ?mem (fst (mmu_write_byte m 0xFFFE 0x43)) 0x4000 = ?mem a"
    and a: "a = 4096 + (unat ((0x43 :: u8) AND 0x3F) mod min (32768 div MMU_ROM_BANK_SIZE) MMU_NUM_ROM_BANKS)
                           * MMU_ROM_BANK_SIZE"
    by auto
  from a have a': "a = 20480" by (simp add: k mmu_consts)
  with rd have "mmu_read_byte ?mem (fst (mmu_write_byte m 0xFFFE 0x43)) 0x4000 = 5"
    by simp
  with r p a' show ?thesis by blast
qed

subsection \<open>C2\<close>

text \<open>
  Claim C2.  For every address in \<open>0xC000 .. 0xDFFF\<close> and after
  any sequence of calls on an initialised MMU, a read of the address and a
  read of the address plus \<open>0x2000\<close> give the same byte, a write
  to either address stores into the same cell of system RAM, and a byte
  written through one address is read back through the other.  (A write to
  one of the last three mirror addresses also remaps a slot, so only the RAM
  is compared after a write.)
\<close>

theorem ram_mirror:
  assumes "0xC000 \<le> addr" "addr \<le> 0xDFFF"
    and "mmu_wf m0" "length fresh = MMU_SYSTEM_RAM_SIZE"
  shows "\<exists>m. mmu_run cs (mmu_init m0 fresh) = Some m \<and>
           mmu_read_byte mem m addr = mmu_read_byte mem m (addr + 0x2000) \<and>
           system_ram (fst (mmu_write_byte m addr v)) =
             system_ram (fst (mmu_write_byte m (addr + 0x2000) v)) \<and>
           mmu_read_byte mem (fst (mmu_write_byte m addr v)) (addr + 0x2000) = v \<and>
           mmu_read_byte mem (fst (mmu_write_byte m (addr + 0x2000) v)) addr = v"
proof -
  from mmu_run_ok[OF mmu_init_wf[OF assms(3,4)], of cs]
  obtain m where r: "mmu_run cs (mmu_init m0 fresh) = Some m" and w: "mmu_wf m"
    by blast
  note ma = mirror_addr[OF assms(1,2)]
  have lo: "addr < 0xE000" by (rule ma(2))
  have hi: "0xE000 \<le> addr + 0x2000" using ma(3) by simp
  have "unat addr \<le> 57343" "49152 \<le> unat addr"
    using assms(1,2) by (simp_all add: word_le_nat_alt)
  then have "unat (addr - 0xC000) = unat addr - 49152"
    by (simp add: unat_sub_if_size word_size)
  with \<open>unat addr \<le> 57343\<close> have idx: "unat (addr - 0xC000) < length (system_ram m)"
    using w by (simp add: mmu_wf_def MMU_SYSTEM_RAM_SIZE_def)
  have "mmu_read_byte mem m addr = mmu_read_byte mem m (addr + 0x2000)"
    by (simp only: read_ram[OF assms(1) lo] read_mirror[OF hi] ma(4))
  moreover have "system_ram (fst (mmu_write_byte m addr v)) =
             system_ram (fst (mmu_write_byte m (addr + 0x2000) v))"
    by (simp add: write_ram[OF assms(1) lo] write_mirror[OF hi] ma(4))
  moreover have "mmu_read_byte mem (fst (mmu_write_byte m addr v)) (addr + 0x2000) = v"
    using idx by (simp add: write_ram[OF assms(1) lo] read_mirror[OF hi] ma(4))
  moreover have "mmu_read_byte mem (fst (mmu_write_byte m (addr + 0x2000) v)) addr = v"
    using idx by (simp add: write_mirror[OF hi] read_ram[OF assms(1) lo] ma(4))
  ultimately show ?thesis using r by blast
qed

theorem ram_mirror_witness:
  "\<exists>m. mmu_run [Power, WriteByte 0xC010 7]
          (mmu_init \<lparr>system_ram = [], map_slots = replicate 3 (Addr 1),
                     rom_banks = replicate 64 (Addr 2)\<rparr> (replicate 8192 0)) = Some m \<and>
       mmu_read_byte (\<lambda>a. 0) m 0xC010 = mmu_read_byte (\<lambda>a. 0) m (0xC010 + 0x2000) \<and>
       system_ram (fst (mmu_write_byte m 0xC010 0x42)) =
         system_ram (fst (mmu_write_byte m (0xC010 + 0x2000) 0x42)) \<and>
       mmu_read_byte (\<lambda>a. 0) (fst (mmu_write_byte m 0xC010 0x42)) (0xC010 + 0x2000) = 0x42 \<and>
       mmu_read_byte (\<lambda>a. 0) (fst (mmu_write_byte m (0xC010 + 0x2000) 0x42)) 0xC010 = 0x42"
proof -
  have a: "(0xC000 :: u16) \<le> 0xC010" "(0xC010 :: u16) \<le> 0xDFFF"
    by simp_all
  have w: "mmu_wf \<lparr>system_ram = replicate 8192 0, map_slots = replicate 3 (Addr 1),
                   rom_banks = replicate 64 (Addr 2)\<rparr>"
    by (simp add: mmu_wf_def mmu_consts)
  have f: "length (replicate 8192 (0 :: u8)) = MMU_SYSTEM_RAM_SIZE"
    by (simp add: mmu_consts)
  have i: "mmu_init \<lparr>system_ram = [], map_slots = replicate 3 (Addr 1),
                     rom_banks = replicate 64 (Addr 2)\<rparr> (replicate 8192 0) =
           mmu_init \<lparr>system_ram = replicate 8192 0, map_slots = replicate 3 (Addr 1),
                     rom_banks = replicate 64 (Addr 2)\<rparr> (replicate 8192 0)"
    by (simp add: mmu_init_def)
  show ?thesis unfolding i by (rule ram_mirror[OF a w f])
qed

subsection \<open>C3\<close>

text \<open>
  Claim C3.  \<open>mmu_write_byte\<close> returns false exactly when the
  address is below \<open>0xC000\<close>, and whenever it returns false the
  MMU is unchanged.
\<close>

theorem write_byte_denied:
  "(\<not> snd (mmu_write_byte m addr v)) = (addr < 0xC000) \<and>
   (\<not> snd (mmu_write_byte m addr v) \<longrightarrow> fst (mmu_write_byte m addr v) = m)"
  by (simp add: mmu_write_byte_def Let_def)

theorem write_byte_denied_witness:
  "\<not> snd (mmu_write_byte \<lparr>system_ram = replicate 8192 0xFF, map_slots = replicate 3 Null,
                            rom_banks = replicate 64 Null\<rparr> 0x1234 7) \<and>
   fst (mmu_write_byte \<lparr>system_ram = replicate 8192 0xFF, map_slots = replicate 3 Null,
                            rom_banks = replicate 64 Null\<rparr> 0x1234 7) =
     \<lparr>system_ram = replicate 8192 0xFF, map_slots = replicate 3 Null,
                            rom_banks = replicate 64 Null\<rparr>"
  using write_byte_denied[of "\<lparr>system_ram = replicate 8192 0xFF, map_slots = replicate 3 Null,
                            rom_banks = replicate 64 Null\<rparr>" "0x1234" 7]
  by simp

subsection \<open>C4\<close>

text \<open>
  Claim C4.  For every address below \<open>0x0400\<close> and after any
  sequence of writes and power-ons (paging writes included), a read returns
  \<open>0xFF\<close> when no ROM has been loaded, and the byte of the loaded
  image at that offset when one has.
\<close>

theorem fixed_header_read:
  assumes "mmu_wf m0" "length fresh = MMU_SYSTEM_RAM_SIZE"
    and "list_all (\<lambda>c. \<not> is_load c) cs" "addr < 0x0400"
  shows "(\<exists>m. mmu_run cs (mmu_init m0 fresh) = Some m \<and> mmu_read_byte mem m addr = 0xFF) \<and>
         (sz mod MMU_ROM_BANK_SIZE = 0 \<and> 0 < sz \<longrightarrow>
            (\<exists>m. mmu_run (LoadRom data sz # cs) m0 = Some m \<and>
                  mmu_read_byte mem m addr = mem (data + unat addr)))"
proof (intro conjI impI)
  from mmu_run_ok[OF mmu_init_wf[OF assms(1,2)], of cs] assms(3)
  obtain m where r: "mmu_run cs (mmu_init m0 fresh) = Some m"
    and same: "rom_banks m = rom_banks (mmu_init m0 fresh)"
    by blast
  have "rom_banks (mmu_init m0 fresh) ! 0 = Null"
    using assms(1) by (simp add: mmu_init_banks MMU_NUM_ROM_BANKS_def)
  with same assms(4) have "mmu_read_byte mem m addr = 0xFF"
    by (simp add: mmu_read_byte_def bank_byte_read_def)
  with r show "\<exists>m. mmu_run cs (mmu_init m0 fresh) = Some m \<and> mmu_read_byte mem m addr = 0xFF"
    by simp
next
  assume "sz mod MMU_ROM_BANK_SIZE = 0 \<and> 0 < sz"
  then have s: "sz mod MMU_ROM_BANK_SIZE = 0" "0 < sz" by simp_all
  from load_rom_sets_banks[OF assms(1) s, of data]
  obtain m1 where l: "mmu_load_rom m0 data sz = Some m1" and w1: "mmu_wf m1"
    and t1: "\<forall>i < MMU_NUM_ROM_BANKS. rom_banks m1 ! i =
               Addr (data + (i mod min (sz div MMU_ROM_BANK_SIZE) MMU_NUM_ROM_BANKS)
                              * MMU_ROM_BANK_SIZE)"
    by blast
  from mmu_run_ok[OF w1, of cs] assms(3)
  obtain m where r: "mmu_run cs m1 = Some m" and same: "rom_banks m = rom_banks m1"
    by blast
  from t1 have "rom_banks m1 ! 0 = Addr data"
    by (simp add: MMU_NUM_ROM_BANKS_def)
  with same assms(4) have "mmu_read_byte mem m addr = mem (data + unat addr)"
    by (simp add: mmu_read_byte_def bank_byte_read_def)
  with l r show "\<exists>m. mmu_run (LoadRom data sz # cs) m0 = Some m \<and>
                  mmu_read_byte mem m addr = mem (data + unat addr)"
    by simp
qed

theorem fixed_header_read_witness:
  "(\<exists>m. mmu_run [Power, WriteByte 0xFFFD 9, WriteDouble 0xFFFE 0x0102]
           (mmu_init \<lparr>system_ram = replicate 8192 0, map_slots = replicate 3 (Addr 1),
                      rom_banks = replicate 64 (Addr 2)\<rparr> (replicate 8192 0)) = Some m \<and>
        mmu_read_byte (\<lambda>a. word_of_nat (a mod 256)) m 0x0038 = 0xFF) \<and>
   (\<exists>m. mmu_run (LoadRom 4096 32768 # [Power, WriteByte 0xFFFD 9, WriteDouble 0xFFFE 0x0102])
           \<lparr>system_ram = replicate 8192 0, map_slots = replicate 3 (Addr 1),
            rom_banks = replicate 64 (Addr 2)\<rparr> = Some m \<and>
        mmu_read_byte (\<lambda>a. word_of_nat (a mod 256)) m 0x0038 = 0x38)"
proof -
  let ?m0 = "\<lparr>system_ram = replicate 8192 0, map_slots = replicate 3 (Addr 1),
             rom_banks = replicate 64 (Addr 2)\<rparr>"
  let ?cs = "[Power, WriteByte 0xFFFD 9, WriteDouble 0xFFFE 0x0102]"
  have w: "mmu_wf ?m0" by (simp add: mmu_wf_def mmu_consts)
  have f: "length (replicate 8192 (0 :: u8)) = MMU_SYSTEM_RAM_SIZE"
    by (simp add: mmu_consts)
  have n: "list_all (\<lambda>c. \<not> is_load c) ?cs" by simp
  have h: "(0x0038 :: u16) < 0x0400" by simp
  have s: "32768 mod MMU_ROM_BANK_SIZE = 0 \<and> 0 < (32768 :: nat)"
    by (simp add: mmu_consts)
  from fixed_header_read[OF w f n h, of "\<lambda>a. word_of_nat (a mod 256)" 32768 4096] s
  show ?thesis by simp
qed

subsection \<open>C5\<close>

text \<open>
  Claim C5.  For every size \<open>sz\<close> that is a multiple of 16 KiB
  with \<open>16 KiB \<le> sz \<le> 1 MiB\<close>, \<open>mmu_load_rom\<close>
  returns and leaves every bank index \<open>i < 64\<close> pointing at image
  offset \<open>(i mod (sz div 16 KiB)) * 16 KiB\<close>.
\<close>

theorem load_rom_bank_table:
  assumes "mmu_wf m"
    and "sz mod MMU_ROM_BANK_SIZE = 0"
    and "MMU_ROM_BANK_SIZE \<le> sz"
    and "sz \<le> MMU_NUM_ROM_BANKS * MMU_ROM_BANK_SIZE"
  shows "\<exists>m'. mmu_load_rom m data sz = Some m' \<and>
           (\<forall>i < MMU_NUM_ROM_BANKS.
              rom_banks m' ! i = Addr (data + (i mod (sz div MMU_ROM_BANK_SIZE)) * MMU_ROM_BANK_SIZE))"
proof -
  have "sz div MMU_ROM_BANK_SIZE \<le> MMU_NUM_ROM_BANKS"
    using assms(4) by (simp add: MMU_ROM_BANK_SIZE_def MMU_NUM_ROM_BANKS_def)
  then have m: "min (sz div MMU_ROM_BANK_SIZE) MMU_NUM_ROM_BANKS = sz div MMU_ROM_BANK_SIZE"
    by simp
  from assms(1) have len: "length (rom_banks m) = MMU_NUM_ROM_BANKS"
    by (simp add: mmu_wf_def)
  from mmu_load_rom_spec[OF assms(2,3), of m data] show ?thesis
    unfolding m len by auto
qed

theorem load_rom_bank_table_witness:
  "\<exists>m'. mmu_load_rom \<lparr>system_ram = replicate 8192 0xFF, map_slots = replicate 3 Null,
                         rom_banks = replicate 64 Null\<rparr> 4096 32768 = Some m' \<and>
        rom_banks m' ! 5 = Addr (4096 + 1 * 16384)"
proof -
  let ?m = "\<lparr>system_ram = replicate 8192 0xFF, map_slots = replicate 3 Null,
             rom_banks = replicate 64 Null\<rparr>"
  have "\<exists>m'. mmu_load_rom ?m 4096 32768 = Some m' \<and>
          (\<forall>i < MMU_NUM_ROM_BANKS.
              rom_banks m' ! i = Addr (4096 + (i mod (32768 div MMU_ROM_BANK_SIZE)) * MMU_ROM_BANK_SIZE))"
    by (rule load_rom_bank_table) (simp_all add: mmu_wf_def mmu_consts)
  then obtain m' where a: "mmu_load_rom ?m 4096 32768 = Some m'"
    and b: "\<forall>i < MMU_NUM_ROM_BANKS.
              rom_banks m' ! i = Addr (4096 + (i mod (32768 div MMU_ROM_BANK_SIZE)) * MMU_ROM_BANK_SIZE)"
    by blast
  from b have "rom_banks m' ! 5 = Addr (4096 + 1 * 16384)"
    by (simp add: mmu_consts)
  with a show ?thesis by blast
qed

subsection \<open>C6\<close>

text \<open>
  Claim C6.  For every size that is not a multiple of 16 KiB,
  \<open>mmu_load_rom\<close> returns with the MMU exactly as it was.
\<close>

theorem load_rom_bad_size_noop:
  assumes "sz mod MMU_ROM_BANK_SIZE \<noteq> 0"
  shows "mmu_load_rom m data sz = Some m"
  using assms by (simp add: mmu_load_rom_def)

theorem load_rom_bad_size_noop_witness:
  "mmu_load_rom \<lparr>system_ram = replicate 8192 0xFF, map_slots = replicate 3 Null,
                  rom_banks = replicate 64 Null\<rparr> 4096 16385 =
     Some \<lparr>system_ram = replicate 8192 0xFF, map_slots = replicate 3 Null,
            rom_banks = replicate 64 Null\<rparr>"
  by (rule load_rom_bad_size_noop) (simp add: mmu_consts)

subsection \<open>C7\<close>

text \<open>
  Claim C7.  For every address, \<open>mmu_read_double\<close> is the byte at
  the address in the low half and the byte at the next address, taken modulo
  \<open>2 ^ 16\<close>, in the high half; at \<open>0xFFFF\<close> the high
  byte is read from \<open>0x0000\<close>.
\<close>

theorem read_double_little_endian:
  "mmu_read_double mem m addr =
     ucast (mmu_read_byte mem m addr) OR
     push_bit 8 (ucast (mmu_read_byte mem m (word_of_nat ((unat addr + 1) mod 2 ^ 16)))) \<and>
   mmu_read_double mem m 0xFFFF =
     ucast (mmu_read_byte mem m 0xFFFF) OR push_bit 8 (ucast (mmu_read_byte mem m 0x0000))"
proof -
  have g: "mmu_read_double mem m a =
     ucast (mmu_read_byte mem m a) OR
     push_bit 8 (ucast (mmu_read_byte mem m (word_of_nat ((unat a + 1) mod 2 ^ 16))))" for a
    unfolding mmu_read_double_def le_word_join promote_succ succ_mod[symmetric] ..
  have "(word_of_nat ((unat (0xFFFF :: u16) + 1) mod 2 ^ 16) :: u16) = 0x0000"
    by simp
  with g[of "0xFFFF"] g[of addr] show ?thesis by simp
qed

subsection \<open>C8\<close>

text \<open>
  Claim C8.  The screen is \<open>160 + 96 = 256\<close> pixels wide and
  \<open>144 + 48 = 192\<close> high; when \<open>setup_graphics\<close>
  succeeds, the texture is an ARGB8888 texture of 256 by 192, the pixel buffer
  has \<open>256 * 192\<close> elements of four bytes, and a frame is handed
  over whole, with rows of \<open>256 * 4\<close> bytes.
\<close>

theorem display_geometry:
  "GG_SCREEN_WIDTH = 256 \<and> GG_SCREEN_HEIGHT = 192 \<and>
   draw_frame =
     [ SDL_UpdateTexture None (256 * 4), SDL_SetRenderDrawColor 0x00 0x00 0x00 0xFF,
       SDL_RenderClear, SDL_RenderCopy None None, SDL_RenderPresent ] \<and>
   (setup_graphics sdl fullscreen scale = Inr e \<longrightarrow>
      emu_texture e = \<lparr> tex_format = SDL_PIXELFORMAT_ARGB8888,
                        tex_access = SDL_TEXTUREACCESS_STREAMING,
                        tex_w = 256, tex_h = 192 \<rparr> \<and>
      pixels_bytes e = 256 * 192 * 4 \<and>
      pixels_bytes e div sizeof_uint32 = 256 * 192 \<and>
      logical_w e = 256 \<and> logical_h e = 192)"
  by (auto simp add: setup_graphics_def GG_SCREEN_WIDTH_def GG_SCREEN_HEIGHT_def
        draw_frame_def sizeof_uint32_def split: if_splits)

theorem display_geometry_witness:
  "\<exists>e. setup_graphics \<lparr>init_ok = True, window_ok = True, renderer_ok = True,
                         texture_ok = True\<rparr> False 3 = Inr e \<and>
       emu_texture e = \<lparr> tex_format = SDL_PIXELFORMAT_ARGB8888,
                         tex_access = SDL_TEXTUREACCESS_STREAMING,
                         tex_w = 256, tex_h = 192 \<rparr> \<and>
       pixels_bytes e = 196608 \<and> window_w e = 768 \<and> window_h e = 576"
proof -
  let ?sdl = "\<lparr>init_ok = True, window_ok = True, renderer_ok = True, texture_ok = True\<rparr>"
  obtain e where e: "setup_graphics ?sdl False 3 = Inr e"
    by (simp add: setup_graphics_def)
  from e have "window_w e = 768" "window_h e = 576"
    by (auto simp add: setup_graphics_def GG_SCREEN_WIDTH_def GG_SCREEN_HEIGHT_def)
  with display_geometry[of ?sdl False 3 e] e show ?thesis by simp
qed

subsection \<open>C9\<close>

text \<open>
  Claim C9.  For every value \<open>v\<close>, \<open>mmu_write_double\<close>
  at \<open>0xFFFF\<close> returns false, yet the low byte has been written:
  slot 2 points at bank \<open>v AND 0x3F\<close> and the last cell of system
  RAM holds \<open>v AND 0xFF\<close>; nothing else has changed.
\<close>

theorem write_double_FFFF_partial:
  assumes "mmu_wf m"
  shows "\<not> snd (mmu_write_double m 0xFFFF v) \<and>
         map_slots (fst (mmu_write_double m 0xFFFF v)) ! 2 = rom_banks m ! unat (v AND 0x3F) \<and>
         system_ram (fst (mmu_write_double m 0xFFFF v)) ! 0x1FFF = ucast (v AND 0xFF) \<and>
         fst (mmu_write_double m 0xFFFF v) =
           m\<lparr>system_ram := (system_ram m)[0x1FFF := ucast (v AND 0xFF)],
              map_slots := (map_slots m)[2 := rom_banks m ! unat (v AND 0x3F)]\<rparr>"
proof -
  let ?lo = "ucast (v AND 0xFF) :: u8"
  let ?m1 = "m\<lparr>system_ram := (system_ram m)[0x1FFF := ?lo],
              map_slots := (map_slots m)[2 := rom_banks m ! unat (v AND 0x3F)]\<rparr>"
  have first: "mmu_write_byte m 0xFFFF ?lo = (?m1, True)"
    by (simp add: mmu_write_byte_def map_slot_def low_byte_bank)
  have second: "mmu_write_byte ?m1 (word_of_int (uint (0xFFFF :: u16) + 1)) (ucast (drop_bit 8 v))
                  = (?m1, False)"
    by (simp add: mmu_write_byte_def)
  have d: "mmu_write_double m 0xFFFF v = (?m1, False)"
    by (simp only: mmu_write_double_def first second Let_def prod.case) simp
  from assms have "2 < length (map_slots m)" "0x1FFF < length (system_ram m)"
    by (simp_all add: mmu_wf_def MMU_NUM_SLOTS_def MMU_SYSTEM_RAM_SIZE_def)
  then show ?thesis unfolding d by simp
qed

theorem write_double_FFFF_partial_witness:
  "\<not> snd (mmu_write_double \<lparr>system_ram = replicate 8192 0, map_slots = replicate 3 Null,
                              rom_banks = map Addr [0..<64]\<rparr> 0xFFFF 0x127F) \<and>
   map_slots (fst (mmu_write_double \<lparr>system_ram = replicate 8192 0, map_slots = replicate 3 Null,
                              rom_banks = map Addr [0..<64]\<rparr> 0xFFFF 0x127F)) ! 2 = Addr 63 \<and>
   system_ram (fst (mmu_write_double \<lparr>system_ram = replicate 8192 0, map_slots = replicate 3 Null,
                              rom_banks = map Addr [0..<64]\<rparr> 0xFFFF 0x127F)) ! 0x1FFF = 0x7F"
proof -
  let ?m0 = "\<lparr>system_ram = replicate 8192 0, map_slots = replicate 3 Null,
             rom_banks = map Addr [0..<64]\<rparr>"
  have w: "mmu_wf ?m0" by (simp add: mmu_wf_def mmu_consts)
  have k: "unat ((0x127F :: u16) AND 0x3F) = 63" by simp
  have l: "(ucast ((0x127F :: u16) AND 0xFF) :: u8) = 0x7F" by simp
  from write_double_FFFF_partial[OF w, of "0x127F"] show ?thesis
    by (simp add: k l)
qed

subsection \<open>C10\<close>

text \<open>
  Claim C10.  For every size that is a multiple of 16 KiB and greater than 1
  MiB, \<open>mmu_load_rom\<close> returns, leaves every bank index
  \<open>i < 64\<close> pointing at image offset \<open>i * 16 KiB\<close>, and has
  the same result as a load of the first 1 MiB alone; every byte read through
  a bank reference then lies in that first 1 MiB.
\<close>

theorem load_rom_oversize_clamps:
  assumes "mmu_wf m"
    and "sz mod MMU_ROM_BANK_SIZE = 0"
    and "MMU_NUM_ROM_BANKS * MMU_ROM_BANK_SIZE < sz"
  shows "\<exists>m'. mmu_load_rom m data sz = Some m' \<and>
           (\<forall>i < MMU_NUM_ROM_BANKS. rom_banks m' ! i = Addr (data + i * MMU_ROM_BANK_SIZE)) \<and>
           (\<forall>i < MMU_NUM_ROM_BANKS. \<forall>off < 0x4000.
              bank_byte_read mem (rom_banks m' ! i) off =
                mem (data + (i * MMU_ROM_BANK_SIZE + unat off)) \<and>
              i * MMU_ROM_BANK_SIZE + unat off < MMU_NUM_ROM_BANKS * MMU_ROM_BANK_SIZE) \<and>
           system_ram m' = system_ram m \<and> map_slots m' = map_slots m \<and>
           mmu_load_rom m data (MMU_NUM_ROM_BANKS * MMU_ROM_BANK_SIZE) = Some m'"
proof -
  have ge: "MMU_ROM_BANK_SIZE \<le> sz"
    using assms(3) by (simp add: MMU_ROM_BANK_SIZE_def MMU_NUM_ROM_BANKS_def)
  have "MMU_NUM_ROM_BANKS \<le> sz div MMU_ROM_BANK_SIZE"
    using assms(3) by (simp add: MMU_ROM_BANK_SIZE_def MMU_NUM_ROM_BANKS_def)
  then have mn: "min (sz div MMU_ROM_BANK_SIZE) MMU_NUM_ROM_BANKS = MMU_NUM_ROM_BANKS"
    by simp
  from assms(1) have len: "length (rom_banks m) = MMU_NUM_ROM_BANKS"
    by (simp add: mmu_wf_def)
  have same: "mmu_load_rom m data sz = mmu_load_rom m data (MMU_NUM_ROM_BANKS * MMU_ROM_BANK_SIZE)"
    using assms(2) ge mn
    by (simp add: mmu_load_rom_def MMU_ROM_BANK_SIZE_def MMU_NUM_ROM_BANKS_def min_def Let_def
             split: if_splits)
  from mmu_load_rom_spec[OF assms(2) ge, of m data]
  obtain bs' where l: "mmu_load_rom m data sz = Some (m\<lparr>rom_banks := bs'\<rparr>)"
    and v: "\<forall>i < MMU_NUM_ROM_BANKS. bs' ! i = Addr (data + i * MMU_ROM_BANK_SIZE)"
    unfolding mn len by auto
  have reach: "bank_byte_read mem (bs' ! i) off = mem (data + (i * MMU_ROM_BANK_SIZE + unat off)) \<and>
      i * MMU_ROM_BANK_SIZE + unat off < MMU_NUM_ROM_BANKS * MMU_ROM_BANK_SIZE"
    if "i < MMU_NUM_ROM_BANKS" "off < 0x4000" for i and off :: u16
  proof -
    from that(2) have "unat off < 16384" by (simp add: word_less_nat_alt)
    moreover from that(1) have "i \<le> 63" by (simp add: MMU_NUM_ROM_BANKS_def)
    ultimately have "i * MMU_ROM_BANK_SIZE + unat off < MMU_NUM_ROM_BANKS * MMU_ROM_BANK_SIZE"
      by (simp add: mmu_consts)
    with v that(1) show ?thesis by (simp add: bank_byte_read_def add.assoc)
  qed
  show ?thesis
    unfolding same[symmetric] l using v reach by simp
qed

theorem load_rom_oversize_clamps_witness:
  "\<exists>m'. mmu_load_rom \<lparr>system_ram = replicate 8192 0xFF, map_slots = replicate 3 Null,
                         rom_banks = replicate 64 Null\<rparr> 4096 1064960 = Some m' \<and>
        rom_banks m' ! 63 = Addr (4096 + 63 * 16384) \<and>
        bank_byte_read (\<lambda>a. if a < 4096 + 1048576 then 1 else 2) (rom_banks m' ! 63) 0x3FFF = 1 \<and>
        mmu_load_rom \<lparr>system_ram = replicate 8192 0xFF, map_slots = replicate 3 Null,
                         rom_banks = replicate 64 Null\<rparr> 4096 1048576 = Some m'"
proof -
  let ?m = "\<lparr>system_ram = replicate 8192 0xFF, map_slots = replicate 3 Null,
             rom_banks = replicate 64 Null\<rparr>"
  let ?mem = "\<lambda>a. if a < 4096 + 1048576 then 1 else 2 :: u8"
  have w: "mmu_wf ?m" by (simp add: mmu_wf_def mmu_consts)
  have s: "1064960 mod MMU_ROM_BANK_SIZE = 0" "MMU_NUM_ROM_BANKS * MMU_ROM_BANK_SIZE < 1064960"
    by (simp_all add: mmu_consts)
  from load_rom_oversize_clamps[OF w s, of 4096 ?mem]
  obtain m' where a: "mmu_load_rom ?m 4096 1064960 = Some m'"
    and b: "\<forall>i < MMU_NUM_ROM_BANKS. rom_banks m' ! i = Addr (4096 + i * MMU_ROM_BANK_SIZE)"
    and r: "\<forall>i < MMU_NUM_ROM_BANKS. \<forall>off < 0x4000.
              bank_byte_read ?mem (rom_banks m' ! i) off =
                ?mem (4096 + (i * MMU_ROM_BANK_SIZE + unat off)) \<and>
              i * MMU_ROM_BANK_SIZE + unat off < MMU_NUM_ROM_BANKS * MMU_ROM_BANK_SIZE"
    and c: "mmu_load_rom ?m 4096 (MMU_NUM_ROM_BANKS * MMU_ROM_BANK_SIZE) = Some m'"
    by blast
  from b have "rom_banks m' ! 63 = Addr (4096 + 63 * 16384)"
    by (simp add: mmu_consts)
  moreover have "(63 :: nat) < MMU_NUM_ROM_BANKS" "(0x3FFF :: u16) < 0x4000"
    by (simp_all add: mmu_consts)
  with r have "bank_byte_read ?mem (rom_banks m' ! 63) 0x3FFF =
                 ?mem (4096 + (63 * MMU_ROM_BANK_SIZE + unat (0x3FFF :: u16)))"
    by blast
  then have "bank_byte_read ?mem (rom_banks m' ! 63) 0x3FFF = 1"
    by (simp add: mmu_consts)
  moreover from c have "mmu_load_rom ?m 4096 1048576 = Some m'"
    by (simp add: mmu_consts)
  ultimately show ?thesis using a by blast
qed

end
